theory Spec2Isabelle
  imports Complex_Main "HOL-Library.Multiset"
begin

section \<open>Data model of \<^verbatim>\<open>src/App.tsx\<close>\<close>

text \<open>
  Strings of the program are JavaScript strings. They are modelled as \<^typ>\<open>string\<close>, a
  \<^typ>\<open>char\<close> standing for one UTF-16 code unit below 256 (ASCII and the Latin-1
  supplement); \<open>of_char\<close> is the code unit, as \<^verbatim>\<open>charCodeAt\<close> returns it.

  A JavaScript number that holds an index is an integer or \<^verbatim>\<open>NaN\<close>
  (\<^verbatim>\<open>"".charCodeAt(0)\<close> is \<^verbatim>\<open>NaN\<close>, and \<^verbatim>\<open>NaN - 65\<close> is \<^verbatim>\<open>NaN\<close>).
\<close>

datatype jsnum = NaN | Num int

datatype error = TypeError

text \<open>The icons of \<^verbatim>\<open>lucide-react\<close> that \<^verbatim>\<open>getIconForCategory\<close> returns.\<close>

datatype icon = Code | Monitor | Brain | Calculator | MessageCircle | Award

record RawQuestion =
  category :: string
  question :: string
  options :: "string list"
  answer :: string

record Question =
  q_id :: nat
  q_question :: string
  q_options :: "string list"
  correct :: jsnum
  explanation :: "string option"

record TestCategory =
  c_id :: string
  name :: string
  icon :: icon
  questions :: "Question list"

datatype AppState = Welcome | CategorySelection | Testing | Results

section \<open>String primitives\<close>

text \<open>\<^verbatim>\<open>s.charCodeAt(0)\<close>: the first code unit, \<^verbatim>\<open>NaN\<close> on the empty string.\<close>

fun charCodeAt0 :: "string \<Rightarrow> jsnum" where
  "charCodeAt0 [] = NaN"
| "charCodeAt0 (c # cs) = Num (of_char c)"

text \<open>The subtraction of two JavaScript numbers, on integers and \<^verbatim>\<open>NaN\<close>.\<close>

fun js_minus :: "jsnum \<Rightarrow> jsnum \<Rightarrow> jsnum" where
  "js_minus (Num a) (Num b) = Num (a - b)"
| "js_minus _ _ = NaN"

text \<open>
  \<^verbatim>\<open>toLowerCase\<close> on a code unit below 256: \<^verbatim>\<open>A..Z\<close> and the capital letters of
  Latin-1 (\<^verbatim>\<open>U+00C0..U+00DE\<close> without the multiplication sign \<^verbatim>\<open>U+00D7\<close>) move up by 32.
\<close>

definition is_upper :: "char \<Rightarrow> bool" where
  "is_upper c =
     (let n = (of_char c :: nat)
      in (65 \<le> n \<and> n \<le> 90) \<or> (192 \<le> n \<and> n \<le> 222 \<and> n \<noteq> 215))"

definition lower_char :: "char \<Rightarrow> char" where
  "lower_char c = (if is_upper c then char_of ((of_char c :: nat) + 32) else c)"

definition toLowerCase :: "string \<Rightarrow> string" where
  "toLowerCase s = map lower_char s"

text \<open>
  The class \<^verbatim>\<open>\s\<close> of a JavaScript regular expression, on code units below 256: tab,
  line feed, vertical tab, form feed, carriage return, space and the no-break space.
\<close>

definition is_space :: "char \<Rightarrow> bool" where
  "is_space c = ((of_char c :: nat) \<in> {9, 10, 11, 12, 13, 32, 160})"

text \<open>
  \<^verbatim>\<open>s.replace(/\s+/g, '-')\<close>: scanning from the left, the greedy \<^verbatim>\<open>\s+\<close> matches a
  maximal run of whitespace, which is replaced by one hyphen; the scan goes on behind it.
\<close>

function replace_spaces :: "string \<Rightarrow> string" where
  "replace_spaces [] = []"
| "replace_spaces (c # cs) =
     (if is_space c then CHR ''-'' # replace_spaces (dropWhile is_space cs)
      else c # replace_spaces cs)"
  by pat_completeness auto
termination
  by (relation "measure length") (auto simp: length_dropWhile_le less_Suc_eq_le)

text \<open>\<^verbatim>\<open>category.toLowerCase().replace(/\s+/g, '-')\<close>, the \<^verbatim>\<open>id\<close> of a category.\<close>

definition slug :: "string \<Rightarrow> string" where
  "slug cat = replace_spaces (toLowerCase cat)"

text \<open>\<^verbatim>\<open>s.includes(t)\<close>: \<open>t\<close> occurs in \<open>s\<close> as a contiguous substring.\<close>

fun starts_with :: "string \<Rightarrow> string \<Rightarrow> bool" where
  "starts_with s [] = True"
| "starts_with [] (t # ts) = False"
| "starts_with (c # cs) (t # ts) = (c = t \<and> starts_with cs ts)"

fun includes_str :: "string \<Rightarrow> string \<Rightarrow> bool" where
  "includes_str [] t = (t = [])"
| "includes_str (c # cs) t = (starts_with (c # cs) t \<or> includes_str cs t)"

definition getIconForCategory :: "string \<Rightarrow> icon" where
  "getIconForCategory cat =
     (if includes_str (toLowerCase cat) ''software'' then Code
      else if includes_str (toLowerCase cat) ''computer'' then Monitor
      else if includes_str (toLowerCase cat) ''logical'' then Brain
      else if includes_str (toLowerCase cat) ''quantitative'' then Calculator
      else if includes_str (toLowerCase cat) ''verbal'' then MessageCircle
      else Award)"

section \<open>The loader\<close>

text \<open>
  \<^verbatim>\<open>grouped\<close> is an object literal \<^verbatim>\<open>{}\<close> used as a dictionary. Its own properties are
  kept as an association list in creation order. Its prototype is \<^verbatim>\<open>Object.prototype\<close>,
  so reading \<^verbatim>\<open>grouped[k]\<close> for a key that is no own property walks the prototype chain:
  for the property names of \<^verbatim>\<open>Object.prototype\<close> the read yields an inherited function
  (the prototype object itself for \<^verbatim>\<open>__proto__\<close>), for every other key \<^verbatim>\<open>undefined\<close>.
\<close>

type_synonym grouped = "(string \<times> Question list) list"

datatype jsvalue = Undefined | Arr "Question list" | Inherited

definition object_prototype_keys :: "string list" where
  "object_prototype_keys =
     [''constructor'', ''hasOwnProperty'', ''isPrototypeOf'', ''propertyIsEnumerable'',
      ''toLocaleString'', ''toString'', ''valueOf'', ''__proto__'',
      ''__defineGetter__'', ''__defineSetter__'', ''__lookupGetter__'', ''__lookupSetter__'']"

definition get_prop :: "grouped \<Rightarrow> string \<Rightarrow> jsvalue" where
  "get_prop g k =
     (case map_of g k of
        Some qs \<Rightarrow> Arr qs
      | None \<Rightarrow> if k \<in> set object_prototype_keys then Inherited else Undefined)"

text \<open>
  \<^verbatim>\<open>grouped[k] = v\<close> for a key that is an own property or is not inherited: an existing
  property keeps its place, a new one is created behind the others.
\<close>

fun set_prop :: "grouped \<Rightarrow> string \<Rightarrow> Question list \<Rightarrow> grouped" where
  "set_prop [] k v = [(k, v)]"
| "set_prop ((k', v') # g) k v = (if k' = k then (k, v) # g else (k', v') # set_prop g k v)"

text \<open>
  The body of the \<^verbatim>\<open>forEach\<close> callback. \<^verbatim>\<open>!grouped[q.category]\<close> is true only for
  \<^verbatim>\<open>undefined\<close> (an array and an inherited function are truthy). Then
  \<^verbatim>\<open>grouped[q.category].push(formatted)\<close> appends to the array; on an inherited value
  \<^verbatim>\<open>push\<close> is \<^verbatim>\<open>undefined\<close> and calling it throws a \<^verbatim>\<open>TypeError\<close>.
\<close>

definition formatted :: "RawQuestion \<Rightarrow> nat \<Rightarrow> Question" where
  "formatted q index =
     \<lparr> q_id = index + 1,
       q_question = question q,
       q_options = options q,
       correct = js_minus (charCodeAt0 (answer q)) (charCodeAt0 ''A''),
       explanation = None \<rparr>"

definition callback :: "grouped \<Rightarrow> RawQuestion \<Rightarrow> nat \<Rightarrow> error + grouped" where
  "callback g q index =
     (let g1 = (if get_prop g (category q) = Undefined then set_prop g (category q) [] else g)
      in case get_prop g1 (category q) of
           Arr qs \<Rightarrow> Inr (set_prop g1 (category q) (qs @ [formatted q index]))
         | _ \<Rightarrow> Inl TypeError)"

text \<open>\<^verbatim>\<open>data.forEach((q, index) => ...)\<close>, from position \<open>index\<close> on; a throw ends it.\<close>

fun forEach_from :: "nat \<Rightarrow> RawQuestion list \<Rightarrow> grouped \<Rightarrow> error + grouped" where
  "forEach_from index [] g = Inr g"
| "forEach_from index (q # rest) g =
     (case callback g q index of
        Inl e \<Rightarrow> Inl e
      | Inr g' \<Rightarrow> forEach_from (Suc index) rest g')"

text \<open>
  \<^verbatim>\<open>Object.entries\<close> lists the own properties: first the keys that are array indices
  (canonical decimal numerals below \<open>2\<^sup>3\<^sup>2 - 1\<close>) in ascending numeric order, then the
  other keys in creation order.
\<close>

definition is_digit :: "char \<Rightarrow> bool" where
  "is_digit c = (48 \<le> (of_char c :: nat) \<and> (of_char c :: nat) \<le> 57)"

definition digits_value :: "string \<Rightarrow> nat" where
  "digits_value s = foldl (\<lambda>n c. 10 * n + (of_char c - 48)) 0 s"

definition is_array_index :: "string \<Rightarrow> bool" where
  "is_array_index k =
     (k \<noteq> [] \<and> list_all is_digit k \<and> (k = ''0'' \<or> hd k \<noteq> CHR ''0'')
      \<and> digits_value k < 2 ^ 32 - 1)"

definition entries :: "grouped \<Rightarrow> (string \<times> Question list) list" where
  "entries g =
     sort_key (\<lambda>(k, qs). digits_value k) (filter (\<lambda>(k, qs). is_array_index k) g)
     @ filter (\<lambda>(k, qs). \<not> is_array_index k) g"

definition to_category :: "string \<times> Question list \<Rightarrow> TestCategory" where
  "to_category e =
     (case e of (cat, qs) \<Rightarrow>
        \<lparr> c_id = slug cat, name = cat, icon = getIconForCategory cat, questions = qs \<rparr>)"

text \<open>
  The body of the \<^verbatim>\<open>then\<close> callback up to \<^verbatim>\<open>setTestCategories\<close>: the catalogue, or the
  error that the \<^verbatim>\<open>catch\<close> handler logs.
\<close>

definition build_categories :: "RawQuestion list \<Rightarrow> error + TestCategory list" where
  "build_categories data =
     (case forEach_from 0 data [] of
        Inl e \<Rightarrow> Inl e
      | Inr g \<Rightarrow> Inr (map to_category (entries g)))"

section \<open>The flow controller\<close>

text \<open>
  The state hooks of \<^verbatim>\<open>App\<close>. Narration (\<^verbatim>\<open>window.speechSynthesis\<close>) is state of the
  browser, not of the component, and is left out: \<^verbatim>\<open>cancel\<close> and \<^verbatim>\<open>speak\<close> change no
  hook.
\<close>

record state =
  currentState :: AppState
  selectedCategory :: "TestCategory option"
  currentQuestionIndex :: nat
  userAnswers :: "int list"
  showExplanation :: bool
  score :: nat
  voiceOn :: bool
  testCategories :: "TestCategory list"

definition initial_state :: state where
  "initial_state =
     \<lparr> currentState = Welcome, selectedCategory = None, currentQuestionIndex = 0,
       userAnswers = [], showExplanation = False, score = 0, voiceOn = True,
       testCategories = [] \<rparr>"

text \<open>\<^verbatim>\<open>a === b\<close> on numbers: \<^verbatim>\<open>NaN\<close> equals nothing, itself included.\<close>

fun strict_eq :: "jsnum \<Rightarrow> jsnum \<Rightarrow> bool" where
  "strict_eq (Num a) (Num b) = (a = b)"
| "strict_eq _ _ = False"

definition handleStart :: "state \<Rightarrow> state" where
  "handleStart s = s\<lparr>currentState := CategorySelection\<rparr>"

definition handleCategorySelect :: "TestCategory \<Rightarrow> state \<Rightarrow> state" where
  "handleCategorySelect cat s =
     s\<lparr>selectedCategory := Some cat, currentState := Testing, currentQuestionIndex := 0,
       userAnswers := [], showExplanation := False, score := 0\<rparr>"

text \<open>
  \<^verbatim>\<open>handleAnswer\<close> returns at once when \<^verbatim>\<open>showExplanation\<close> is set. Otherwise it reads
  \<^verbatim>\<open>selectedCategory!.questions[currentQuestionIndex].correct\<close>, which throws a
  \<^verbatim>\<open>TypeError\<close> when no category is selected or the index is beyond the questions
  (before any hook is set).
\<close>

definition handleAnswer :: "int \<Rightarrow> state \<Rightarrow> error + state" where
  "handleAnswer answerIndex s =
     (if showExplanation s then Inr s
      else case selectedCategory s of
             None \<Rightarrow> Inl TypeError
           | Some cat \<Rightarrow>
               if currentQuestionIndex s < length (questions cat) then
                 let isCorrect =
                       strict_eq (Num answerIndex)
                         (correct (questions cat ! currentQuestionIndex s));
                     newAnswers = userAnswers s @ [answerIndex]
                 in Inr (s\<lparr>userAnswers := newAnswers,
                           score := (if isCorrect then score s + 1 else score s),
                           showExplanation := True\<rparr>)
               else Inl TypeError)"

text \<open>
  \<^verbatim>\<open>handleNext\<close> compares with \<^verbatim>\<open>length - 1\<close>, which is \<open>-1\<close> for no questions: the
  comparison is one of integers.
\<close>

definition handleNext :: "state \<Rightarrow> error + state" where
  "handleNext s =
     (case selectedCategory s of
        None \<Rightarrow> Inl TypeError
      | Some cat \<Rightarrow>
          if int (currentQuestionIndex s) < int (length (questions cat)) - 1
          then Inr (s\<lparr>currentQuestionIndex := currentQuestionIndex s + 1,
                      showExplanation := False\<rparr>)
          else Inr (s\<lparr>currentState := Results\<rparr>))"

definition resetTest :: "state \<Rightarrow> state" where
  "resetTest s =
     s\<lparr>currentState := Welcome, selectedCategory := None, currentQuestionIndex := 0,
       userAnswers := [], showExplanation := False, score := 0\<rparr>"

section \<open>Scoring\<close>

text \<open>
  \<^verbatim>\<open>(score / length) * 100\<close> in \<^verbatim>\<open>getScoreMessage\<close> is a quotient of two counts,
  compared with 80, 60 and 40. It is modelled by its exact value, a rational, with the two
  special values of a division by zero (\<^verbatim>\<open>0/0\<close> is \<^verbatim>\<open>NaN\<close>, \<^verbatim>\<open>n/0\<close> is
  \<^verbatim>\<open>Infinity\<close>). The double arithmetic is not modelled. For the three comparisons this
  loses nothing on the lengths an array can have: in doubles \<open>0.8 * 100\<close>, \<open>0.6 * 100\<close>
  and \<open>0.4 * 100\<close> are 80, 60 and 40, and a smaller quotient of two counts is further
  from them than the rounding of the two operations reaches. The digits of the
  percentage do depend on that rounding, so the rounded percentage that the results
  screen prints is left out of the model.
\<close>

datatype jsquot = NaNq | PosInf | Fin rat

definition js_div :: "nat \<Rightarrow> nat \<Rightarrow> jsquot" where
  "js_div a b = (if b = 0 then (if a = 0 then NaNq else PosInf) else Fin (of_nat a / of_nat b))"

fun js_times :: "jsquot \<Rightarrow> rat \<Rightarrow> jsquot" where
  "js_times (Fin x) y = Fin (x * y)"
| "js_times v y = v"

fun js_ge :: "jsquot \<Rightarrow> rat \<Rightarrow> bool" where
  "js_ge (Fin x) y = (x \<ge> y)"
| "js_ge PosInf y = True"
| "js_ge NaNq y = False"

definition getScoreMessage :: "state \<Rightarrow> error + string" where
  "getScoreMessage s =
     (case selectedCategory s of
        None \<Rightarrow> Inl TypeError
      | Some cat \<Rightarrow>
          let percentage = js_times (js_div (score s) (length (questions cat))) 100
          in Inr (if js_ge percentage 80 then ''Excellent performance.''
                  else if js_ge percentage 60 then ''Good performance.''
                  else if js_ge percentage 40 then ''Average performance.''
                  else ''Needs improvement.''))"

section \<open>The screens and their controls\<close>

text \<open>
  The component renders one of four screens, and a handler runs only through a control
  of the rendered screen. The testing screen is rendered when \<^verbatim>\<open>currentState\<close> is
  \<^verbatim>\<open>'testing'\<close> and a category is selected; it reads
  \<^verbatim>\<open>selectedCategory.questions[currentQuestionIndex]\<close> and its \<^verbatim>\<open>question\<close>, so
  rendering throws, and leaves no control, when the index is beyond the questions.
\<close>

definition testing_question :: "state \<Rightarrow> Question option" where
  "testing_question s =
     (if currentState s = Testing then
        (case selectedCategory s of
           None \<Rightarrow> None
         | Some cat \<Rightarrow>
             if currentQuestionIndex s < length (questions cat)
             then Some (questions cat ! currentQuestionIndex s) else None)
      else None)"

datatype event =
    ClickBegin
  | ClickCategory nat
  | ClickVoice
  | ClickOption nat
  | ClickNext
  | ClickNewAssessment
  | QuestionsLoaded "RawQuestion list"

text \<open>
  \<open>fire e s\<close> is \<open>None\<close> when the rendered screen has no control for \<open>e\<close>: the option
  buttons carry \<^verbatim>\<open>disabled={showExplanation}\<close>, the button of \<^verbatim>\<open>handleNext\<close> is rendered
  under \<^verbatim>\<open>showExplanation &&\<close>. \<open>QuestionsLoaded data\<close> is the resolution of the fetch
  with \<open>data\<close>: \<^verbatim>\<open>setTestCategories\<close> runs unless the callback has thrown.
\<close>

fun fire :: "event \<Rightarrow> state \<Rightarrow> (error + state) option" where
  "fire ClickBegin s =
     (if currentState s = Welcome then Some (Inr (handleStart s)) else None)"
| "fire (ClickCategory k) s =
     (if currentState s = CategorySelection \<and> k < length (testCategories s)
      then Some (Inr (handleCategorySelect (testCategories s ! k) s)) else None)"
| "fire ClickVoice s =
     (case testing_question s of
        None \<Rightarrow> None
      | Some currentQuestion \<Rightarrow> Some (Inr (s\<lparr>voiceOn := \<not> voiceOn s\<rparr>)))"
| "fire (ClickOption i) s =
     (case testing_question s of
        None \<Rightarrow> None
      | Some currentQuestion \<Rightarrow>
          if i < length (q_options currentQuestion) \<and> \<not> showExplanation s
          then Some (handleAnswer (int i) s) else None)"
| "fire ClickNext s =
     (case testing_question s of
        None \<Rightarrow> None
      | Some currentQuestion \<Rightarrow> if showExplanation s then Some (handleNext s) else None)"
| "fire ClickNewAssessment s =
     (if currentState s = Results \<and> selectedCategory s \<noteq> None
      then Some (Inr (resetTest s)) else None)"
| "fire (QuestionsLoaded data) s =
     (case build_categories data of
        Inl e \<Rightarrow> Some (Inr s)
      | Inr categories \<Rightarrow> Some (Inr (s\<lparr>testCategories := categories\<rparr>)))"

text \<open>The states that the component can be in: from the initial hooks, by controls.\<close>

inductive reachable :: "state \<Rightarrow> bool" where
  reachable_init: "reachable initial_state"
| reachable_fire: "reachable s \<Longrightarrow> fire e s = Some (Inr s') \<Longrightarrow> reachable s'"

section \<open>Notions of the specification\<close>

text \<open>
  The slug in the words of the specification: the name in lower case, every run of
  whitespace collapsed into one hyphen. \<open>in_run\<close> tells that the character before was
  whitespace, whose run has got its hyphen already.
\<close>

fun collapse_spaces :: "bool \<Rightarrow> string \<Rightarrow> string" where
  "collapse_spaces in_run [] = []"
| "collapse_spaces in_run (c # cs) =
     (if is_space c then (if in_run then collapse_spaces True cs
                          else CHR ''-'' # collapse_spaces True cs)
      else c # collapse_spaces False cs)"

definition spec_slug :: "string \<Rightarrow> string" where
  "spec_slug nm = collapse_spaces False (toLowerCase nm)"

text \<open>The invariant of a question: \<open>0 \<le> correctIndex < length options\<close>.\<close>

definition correct_in_range :: "Question \<Rightarrow> bool" where
  "correct_in_range q =
     (case correct q of
        NaN \<Rightarrow> False
      | Num k \<Rightarrow> 0 \<le> k \<and> k < int (length (q_options q)))"

text \<open>
  The answer letter of a raw record names one of its options: it starts with one of the
  first \<open>length options\<close> capital letters from \<^verbatim>\<open>A\<close> on.
\<close>

definition letter_in_range :: "RawQuestion \<Rightarrow> bool" where
  "letter_in_range r =
     (case answer r of
        [] \<Rightarrow> False
      | c # cs \<Rightarrow> 65 \<le> (of_char c :: nat) \<and> (of_char c :: nat) < 65 + length (options r))"

text \<open>The number of positions \<open>i\<close> with \<open>answers[i] = questions[i].correctIndex\<close>.\<close>

definition correct_count :: "int list \<Rightarrow> Question list \<Rightarrow> nat" where
  "correct_count as qs =
     length (filter (\<lambda>i. strict_eq (Num (as ! i)) (correct (qs ! i))) [0..<length as])"

text \<open>
  The accuracy and the message of the specification: the percentage rounded to the
  nearest integer, and the message chosen by the thresholds on the rounded value.
\<close>

definition spec_accuracyPercent :: "nat \<Rightarrow> nat \<Rightarrow> int" where
  "spec_accuracyPercent sc n = round (of_nat sc / of_nat n * 100 :: rat)"

definition spec_message :: "nat \<Rightarrow> nat \<Rightarrow> string" where
  "spec_message sc n =
     (if spec_accuracyPercent sc n \<ge> 80 then ''Excellent performance.''
      else if spec_accuracyPercent sc n \<ge> 60 then ''Good performance.''
      else if spec_accuracyPercent sc n \<ge> 40 then ''Average performance.''
      else ''Needs improvement.'')"

section \<open>Auxiliary notions of the proofs\<close>

text \<open>All questions held by the buckets of \<^verbatim>\<open>grouped\<close>.\<close>

definition all_questions :: "grouped \<Rightarrow> Question list" where
  "all_questions g = concat (map snd g)"

text \<open>
  The invariant of the component: loaded categories have questions; without a selected
  category there is no answer and no score; while a category is selected the index is
  within its questions, there is one answer for each question
  before the current one, and one more when the explanation shows, and the score counts
  the answers that are correct.
\<close>

definition session_inv :: "state \<Rightarrow> bool" where
  "session_inv s =
     ((\<forall>c \<in> set (testCategories s). questions c \<noteq> []) \<and>
      (case selectedCategory s of
         None \<Rightarrow> userAnswers s = [] \<and> score s = 0
       | Some cat \<Rightarrow>
           currentQuestionIndex s < length (questions cat) \<and>
           length (userAnswers s)
             = currentQuestionIndex s + (if showExplanation s then 1 else 0) \<and>
           score s = correct_count (userAnswers s) (questions cat) \<and>
           (currentState s = Results \<longrightarrow> showExplanation s)))"

text \<open>Controls fired one after the other; \<open>None\<close> when one is not there or throws.\<close>

fun run :: "event list \<Rightarrow> state \<Rightarrow> state option" where
  "run [] s = Some s"
| "run (e # es) s =
     (case fire e s of
        Some (Inr s') \<Rightarrow> run es s'
      | _ \<Rightarrow> None)"

section \<open>A sample catalogue and a sample session\<close>

text \<open>
  Three raw records in two categories. The third names the answer \<^verbatim>\<open>Z\<close>, which none of
  its four options has.
\<close>

definition sample_data :: "RawQuestion list" where
  "sample_data =
     [\<lparr> category = ''Logical Reasoning'', question = ''Which number comes next: 1, 2, 3?'',
        options = [''2'', ''4'', ''6'', ''8''], answer = ''B'' \<rparr>,
      \<lparr> category = ''Verbal Ability'', question = ''Which animal purrs?'',
        options = [''Cat'', ''Dog'', ''Fish'', ''Bird''], answer = ''A'' \<rparr>,
      \<lparr> category = ''Logical Reasoning'', question = ''Which number is odd?'',
        options = [''2'', ''4'', ''6'', ''7''], answer = ''Z'' \<rparr>]"

definition sample_logical :: TestCategory where
  "sample_logical =
     \<lparr> c_id = ''logical-reasoning'', name = ''Logical Reasoning'', icon = Brain,
       questions =
         [\<lparr> q_id = 1, q_question = ''Which number comes next: 1, 2, 3?'',
            q_options = [''2'', ''4'', ''6'', ''8''], correct = Num 1, explanation = None \<rparr>,
          \<lparr> q_id = 3, q_question = ''Which number is odd?'',
            q_options = [''2'', ''4'', ''6'', ''7''], correct = Num 25, explanation = None \<rparr>] \<rparr>"

definition sample_verbal :: TestCategory where
  "sample_verbal =
     \<lparr> c_id = ''verbal-ability'', name = ''Verbal Ability'', icon = MessageCircle,
       questions =
         [\<lparr> q_id = 2, q_question = ''Which animal purrs?'',
            q_options = [''Cat'', ''Dog'', ''Fish'', ''Bird''], correct = Num 0,
            explanation = None \<rparr>] \<rparr>"

text \<open>
  The states of a session on the first category: the first question shown, answered with
  its second option, the second question shown, answered with its first option, and the
  results.
\<close>

definition sample_session :: "nat \<Rightarrow> int list \<Rightarrow> bool \<Rightarrow> nat \<Rightarrow> state" where
  "sample_session i as shown sc =
     \<lparr> currentState = Testing, selectedCategory = Some sample_logical,
       currentQuestionIndex = i, userAnswers = as, showExplanation = shown, score = sc,
       voiceOn = True, testCategories = [sample_logical, sample_verbal] \<rparr>"

definition sample_first_shown :: state where
  "sample_first_shown = sample_session 0 [] False 0"

definition sample_first_answered :: state where
  "sample_first_answered = sample_session 0 [1] True 1"

definition sample_second_shown :: state where
  "sample_second_shown = sample_session 1 [1] False 1"

definition sample_second_answered :: state where
  "sample_second_answered = sample_session 1 [1, 0] True 1"

definition sample_results :: state where
  "sample_results = (sample_session 1 [1, 0] True 1)\<lparr>currentState := Results\<rparr>"

text \<open>A raw record whose category is a property name of \<^verbatim>\<open>Object.prototype\<close>.\<close>

definition inherited_key_data :: "RawQuestion list" where
  "inherited_key_data =
     [\<lparr> category = ''constructor'', question = ''Which keyword creates an object?'',
        options = [''new'', ''old''], answer = ''A'' \<rparr>]"

definition sample_events :: "event list" where
  "sample_events =
     [QuestionsLoaded sample_data, ClickBegin, ClickCategory 0, ClickOption 1, ClickNext,
      ClickOption 0, ClickNext]"

text \<open>
  A category of 44 questions with two options each, and a session that answers the first
  35 of them correctly: 35 of 44 is 79.5454... percent.
\<close>

definition long_record :: RawQuestion where
  "long_record =
     \<lparr> category = ''Quantitative Aptitude'', question = ''Is 7 a prime number?'',
       options = [''Yes'', ''No''], answer = ''A'' \<rparr>"

definition long_data :: "RawQuestion list" where
  "long_data = replicate 44 long_record"

definition long_category :: TestCategory where
  "long_category =
     \<lparr> c_id = ''quantitative-aptitude'', name = ''Quantitative Aptitude'', icon = Calculator,
       questions = map (formatted long_record) [0..<44] \<rparr>"

definition long_answers :: "int list" where
  "long_answers = replicate 35 0 @ replicate 9 1"

definition long_start :: state where
  "long_start =
     \<lparr> currentState = Testing, selectedCategory = Some long_category,
       currentQuestionIndex = 0, userAnswers = [], showExplanation = False, score = 0,
       voiceOn = True, testCategories = [long_category] \<rparr>"

definition long_results :: state where
  "long_results =
     \<lparr> currentState = Results, selectedCategory = Some long_category,
       currentQuestionIndex = 43, userAnswers = long_answers, showExplanation = True,
       score = 35, voiceOn = True, testCategories = [long_category] \<rparr>"

section \<open>Properties of the loader\<close>

lemma set_prop_absent: "map_of g k = None \<Longrightarrow> set_prop g k v = g @ [(k, v)]"
  by (induction g) (auto split: if_splits)

lemma map_of_set_prop: "map_of (set_prop g k v) k = Some v"
  by (induction g) auto

lemma set_prop_twice: "set_prop (set_prop g k v) k w = set_prop g k w"
  by (induction g) auto

lemma callback_eq:
  "callback g q index =
     (case map_of g (category q) of
        Some qs \<Rightarrow> Inr (set_prop g (category q) (qs @ [formatted q index]))
      | None \<Rightarrow>
          if category q \<in> set object_prototype_keys then Inl TypeError
          else Inr (g @ [(category q, [formatted q index])]))"
proof (cases "map_of g (category q)")
  case None
  then show ?thesis
    by (simp add: callback_def get_prop_def map_of_set_prop set_prop_twice
          set_prop_absent [OF None, of "[formatted q index]"])
next
  case (Some qs)
  then show ?thesis
    by (simp add: callback_def get_prop_def)
qed

lemma mset_set_prop_present:
  "map_of g k = Some qs \<Longrightarrow>
     mset (all_questions (set_prop g k (qs @ [f]))) = add_mset f (mset (all_questions g))"
  by (induction g) (auto simp: all_questions_def split: if_splits)

lemma callback_mset:
  "callback g q index = Inr g' \<Longrightarrow>
     mset (all_questions g') = add_mset (formatted q index) (mset (all_questions g))"
proof (cases "map_of g (category q)")
  case None
  assume "callback g q index = Inr g'"
  with None have "g' = g @ [(category q, [formatted q index])]"
    by (simp add: callback_eq split: if_splits)
  then show ?thesis by (simp add: all_questions_def)
next
  case (Some qs)
  assume "callback g q index = Inr g'"
  with Some have "g' = set_prop g (category q) (qs @ [formatted q index])"
    by (simp add: callback_eq)
  with Some show ?thesis by (simp add: mset_set_prop_present)
qed

lemma set_set_prop: "set (set_prop g k v) \<subseteq> insert (k, v) (set g)"
  by (induction g) (auto split: if_splits)

lemma callback_set:
  "callback g q index = Inr g' \<Longrightarrow>
     \<exists>qs. set g' \<subseteq> insert (category q, qs @ [formatted q index]) (set g)"
proof (cases "map_of g (category q)")
  case None
  assume "callback g q index = Inr g'"
  with None have "g' = g @ [(category q, [] @ [formatted q index])]"
    by (simp add: callback_eq split: if_splits)
  then show ?thesis by (intro exI [of _ "[]"]) auto
next
  case (Some qs)
  assume "callback g q index = Inr g'"
  with Some have "g' = set_prop g (category q) (qs @ [formatted q index])"
    by (simp add: callback_eq)
  then show ?thesis using set_set_prop by blast
qed

lemma callback_ok:
  "category q \<notin> set object_prototype_keys \<Longrightarrow> \<exists>g'. callback g q index = Inr g'"
  by (simp add: callback_eq split: option.splits)

lemma forEach_from_mset:
  "forEach_from index data g = Inr g' \<Longrightarrow>
     mset (all_questions g') =
       mset (all_questions g) + mset (map2 formatted data [index..<index + length data])"
proof (induction data arbitrary: index g)
  case Nil
  then show ?case by simp
next
  case (Cons q rest)
  from Cons.prems obtain g1 where g1: "callback g q index = Inr g1"
    and rest: "forEach_from (Suc index) rest g1 = Inr g'"
    by (auto split: sum.splits)
  have "[index..<index + length (q # rest)] = index # [Suc index..<Suc index + length rest]"
    by (simp add: upt_rec)
  with Cons.IH [OF rest] callback_mset [OF g1] show ?case
    by simp
qed

lemma forEach_from_ok:
  "\<forall>q \<in> set data. category q \<notin> set object_prototype_keys \<Longrightarrow>
     \<exists>g'. forEach_from index data g = Inr g'"
proof (induction data arbitrary: index g)
  case Nil
  then show ?case by simp
next
  case (Cons q rest)
  then obtain g1 where "callback g q index = Inr g1"
    using callback_ok [of q g index] by auto
  with Cons show ?case by simp
qed

lemma forEach_from_nonempty:
  "forEach_from index data g = Inr g' \<Longrightarrow> \<forall>(k, qs) \<in> set g. qs \<noteq> [] \<Longrightarrow>
     \<forall>(k, qs) \<in> set g'. qs \<noteq> []"
proof (induction data arbitrary: index g)
  case Nil
  then show ?case by simp
next
  case (Cons q rest)
  from Cons.prems obtain g1 where g1: "callback g q index = Inr g1"
    and rest: "forEach_from (Suc index) rest g1 = Inr g'"
    by (auto split: sum.splits)
  from callback_set [OF g1] Cons.prems(2) have "\<forall>(k, qs) \<in> set g1. qs \<noteq> []"
    by fastforce
  with Cons.IH [OF rest] show ?case .
qed

lemma mset_entries: "mset (entries g) = mset g"
  by (simp add: entries_def)

lemma set_entries: "set (entries g) = set g"
  by (auto simp: entries_def)

lemma questions_to_category: "questions (to_category (k, qs)) = qs"
  by (simp add: to_category_def)

lemma build_categories_nonempty:
  assumes "build_categories data = Inr cs" and "c \<in> set cs"
  shows "questions c \<noteq> []"
proof -
  from assms(1) obtain g where g: "forEach_from 0 data [] = Inr g"
    and cs: "cs = map to_category (entries g)"
    by (auto simp: build_categories_def split: sum.splits)
  from forEach_from_nonempty [OF g] have ne: "\<forall>(k, qs) \<in> set g. qs \<noteq> []" by simp
  from assms(2) cs obtain k qs where "(k, qs) \<in> set g" and "c = to_category (k, qs)"
    by (auto simp: set_entries)
  with ne show ?thesis by (auto simp: questions_to_category)
qed

lemma mset_concat_map: "mset (concat (map f xs)) = (\<Sum>x\<in>#mset xs. mset (f x))"
  by (induction xs) simp_all

lemma mset_concat_cong:
  "mset xs = mset ys \<Longrightarrow> mset (concat (map f xs)) = mset (concat (map f ys))"
  by (simp only: mset_concat_map)

lemma build_categories_mset:
  assumes "build_categories data = Inr cs"
  shows "mset (concat (map questions cs)) = mset (map2 formatted data [0..<length data])"
proof -
  from assms obtain g where g: "forEach_from 0 data [] = Inr g"
    and cs: "cs = map to_category (entries g)"
    by (auto simp: build_categories_def split: sum.splits)
  have "map questions cs = map snd (entries g)"
    by (auto simp: cs questions_to_category)
  then have "mset (concat (map questions cs)) = mset (concat (map snd g))"
    using mset_concat_cong [OF mset_entries, of snd g] by simp
  also have "\<dots> = mset (map2 formatted data [0..<length data])"
    using forEach_from_mset [OF g] by (simp add: all_questions_def)
  finally show ?thesis .
qed

lemma build_categories_total_count:
  assumes "build_categories data = Inr cs"
  shows "sum_list (map (\<lambda>c. length (questions c)) cs) = length data"
proof -
  have "sum_list (map (\<lambda>c. length (questions c)) cs) = length (concat (map questions cs))"
    by (simp add: length_concat comp_def)
  also have "\<dots> = size (mset (concat (map questions cs)))" by simp
  also have "\<dots> = length data"
    unfolding build_categories_mset [OF assms] by simp
  finally show ?thesis .
qed

lemma formatted_fields:
  "q_id (formatted r i) = i + 1
   \<and> q_options (formatted r i) = options r
   \<and> correct (formatted r i) = js_minus (charCodeAt0 (answer r)) (Num 65)"
  by (simp add: formatted_def)

lemma formatted_in_range: "correct_in_range (formatted r i) \<longleftrightarrow> letter_in_range r"
proof (cases "answer r")
  case Nil
  then show ?thesis
    by (simp add: correct_in_range_def letter_in_range_def formatted_def)
next
  case (Cons c cs)
  have "(of_char c :: int) = int (of_char c)"
    by (simp add: of_nat_of_char)
  with Cons show ?thesis
    by (auto simp: correct_in_range_def letter_in_range_def formatted_def)
qed

lemma set_map2_formatted:
  "q \<in> set (map2 formatted data [0..<length data])
   \<longleftrightarrow> (\<exists>i < length data. q = formatted (data ! i) i)"
  unfolding in_set_conv_nth by auto

text \<open>
  The loader throws exactly when a category is a property name of \<^verbatim>\<open>Object.prototype\<close>.
  On every other input the buckets partition the records: their sizes add up to the
  number of records, and the identifiers are \<open>1, \<dots>, length data\<close>.
\<close>

lemma callback_keys:
  "callback g q index = Inr g' \<Longrightarrow> fst ` set g' \<subseteq> insert (category q) (fst ` set g)"
  using callback_set [of g q index g'] by fastforce

lemma callback_inherited:
  assumes "category q \<in> set object_prototype_keys"
    and "fst ` set g \<inter> set object_prototype_keys = {}"
  shows "callback g q index = Inl TypeError"
proof -
  from assms have "category q \<notin> fst ` set g" by auto
  then have "map_of g (category q) = None"
    by (simp add: map_of_eq_None_iff)
  with assms(1) show ?thesis by (simp add: callback_eq)
qed

lemma disjoint_grow:
  "K1 \<subseteq> insert k K \<Longrightarrow> k \<notin> P \<Longrightarrow> K \<inter> P = {} \<Longrightarrow> K1 \<inter> P = {}"
  by blast

lemma forEach_from_inherited:
  assumes "\<exists>q \<in> set data. category q \<in> set object_prototype_keys"
    and "fst ` set g \<inter> set object_prototype_keys = {}"
  shows "forEach_from index data g = Inl TypeError"
  using assms
proof (induction data arbitrary: index g)
  case Nil
  then show ?case by simp
next
  case (Cons q rest)
  show ?case
  proof (cases "category q \<in> set object_prototype_keys")
    case True
    with Cons.prems(2) show ?thesis by (simp add: callback_inherited)
  next
    case False
    then obtain g1 where g1: "callback g q index = Inr g1"
      using callback_ok by blast
    from callback_keys [OF g1] False Cons.prems(2)
    have disj: "fst ` set g1 \<inter> set object_prototype_keys = {}" by (rule disjoint_grow)
    from False Cons.prems(1)
    have "\<exists>q \<in> set rest. category q \<in> set object_prototype_keys" by auto
    then have "forEach_from (Suc index) rest g1 = Inl TypeError"
      using disj by (rule Cons.IH)
    with g1 show ?thesis by simp
  qed
qed

lemma build_categories_throws_iff:
  "build_categories data = Inl TypeError
   \<longleftrightarrow> (\<exists>q \<in> set data. category q \<in> set object_prototype_keys)"
proof
  assume "build_categories data = Inl TypeError"
  then have "\<not> (\<exists>g. forEach_from 0 data [] = Inr g)"
    by (auto simp: build_categories_def)
  with forEach_from_ok [of data 0 "[]"] show "\<exists>q \<in> set data. category q \<in> set object_prototype_keys"
    by blast
next
  assume "\<exists>q \<in> set data. category q \<in> set object_prototype_keys"
  then have "forEach_from 0 data [] = Inl TypeError"
    by (rule forEach_from_inherited) simp
  then show "build_categories data = Inl TypeError"
    by (simp add: build_categories_def)
qed

lemma map_q_id_formatted:
  "map q_id (map2 formatted data [0..<length data]) = [1..<Suc (length data)]"
  by (rule nth_equalityI) (simp_all add: formatted_def del: upt_Suc)

lemma build_categories_partition:
  assumes "\<forall>q \<in> set data. category q \<notin> set object_prototype_keys"
  shows "\<exists>cs. build_categories data = Inr cs
              \<and> sum_list (map (\<lambda>c. length (questions c)) cs) = length data
              \<and> mset (concat (map questions cs)) = mset (map2 formatted data [0..<length data])
              \<and> mset (map q_id (concat (map questions cs))) = mset [1..<Suc (length data)]"
proof -
  from forEach_from_ok [OF assms, of 0 "[]"] obtain cs where cs: "build_categories data = Inr cs"
    by (auto simp: build_categories_def)
  have "mset (map q_id (concat (map questions cs)))
        = mset (map q_id (map2 formatted data [0..<length data]))"
    using build_categories_mset [OF cs] by (simp only: mset_map)
  then have "mset (map q_id (concat (map questions cs))) = mset [1..<Suc (length data)]"
    by (simp only: map_q_id_formatted)
  with cs build_categories_total_count [OF cs] build_categories_mset [OF cs]
  show ?thesis by blast
qed

text \<open>The names of the catalogue are the categories of the records.\<close>

lemma keys_set_prop: "fst ` set (set_prop g k v) = insert k (fst ` set g)"
proof (induction g)
  case Nil
  then show ?case by simp
next
  case (Cons p g)
  then show ?case by (cases p) (simp add: insert_commute)
qed

lemma callback_keys_eq:
  assumes "callback g q index = Inr g'"
  shows "fst ` set g' = insert (category q) (fst ` set g)"
proof (cases "map_of g (category q)")
  case None
  with assms have "g' = g @ [(category q, [formatted q index])]"
    by (simp add: callback_eq split: if_splits)
  then show ?thesis by simp
next
  case (Some qs)
  with assms have "g' = set_prop g (category q) (qs @ [formatted q index])"
    by (simp add: callback_eq)
  then show ?thesis by (simp only: keys_set_prop)
qed

lemma forEach_from_keys:
  "forEach_from index data g = Inr g' \<Longrightarrow> fst ` set g' = fst ` set g \<union> category ` set data"
proof (induction data arbitrary: index g)
  case Nil
  then show ?case by simp
next
  case (Cons q rest)
  from Cons.prems obtain g1 where g1: "callback g q index = Inr g1"
    and rest: "forEach_from (Suc index) rest g1 = Inr g'"
    by (auto split: sum.splits)
  from Cons.IH [OF rest] callback_keys_eq [OF g1] show ?case by auto
qed

lemma name_to_category: "name (to_category (k, qs)) = k"
  by (simp add: to_category_def)

lemma build_categories_names:
  assumes "build_categories data = Inr cs"
  shows "set (map name cs) = set (map category data)"
proof -
  from assms obtain g where g: "forEach_from 0 data [] = Inr g"
    and cs: "cs = map to_category (entries g)"
    by (auto simp: build_categories_def split: sum.splits)
  have "map name cs = map fst (entries g)"
    by (auto simp: cs name_to_category)
  then have "set (map name cs) = fst ` set g"
    by (simp add: set_entries)
  with forEach_from_keys [OF g] show ?thesis by simp
qed

section \<open>Properties of the slug\<close>

lemma collapse_spaces_in_run:
  "collapse_spaces True s = collapse_spaces False (dropWhile is_space s)"
  by (induction s) auto

lemma replace_spaces_collapse: "replace_spaces s = collapse_spaces False s"
  by (induction s rule: replace_spaces.induct) (simp_all add: collapse_spaces_in_run)

lemma replace_spaces_no_space: "\<not> list_ex is_space (replace_spaces s)"
  by (induction s rule: replace_spaces.induct) (auto simp: is_space_def)

lemma lower_char_not_upper: "\<not> is_upper (lower_char c)"
  by (auto simp: lower_char_def is_upper_def Let_def)

lemma hyphen_not_upper: "\<not> is_upper (CHR ''-'')"
  by (simp add: is_upper_def)

lemma replace_spaces_no_upper:
  "\<not> list_ex is_upper s \<Longrightarrow> \<not> list_ex is_upper (replace_spaces s)"
proof (induction s rule: replace_spaces.induct)
  case 1
  then show ?case by simp
next
  case (2 c cs)
  have "\<not> list_ex is_upper (dropWhile is_space cs)"
    using 2(3) set_dropWhileD [of _ is_space cs] by (auto simp: list_ex_iff)
  with 2 show ?case by (auto simp: hyphen_not_upper)
qed

lemma toLowerCase_no_upper: "\<not> list_ex is_upper (toLowerCase s)"
  by (simp add: toLowerCase_def list_ex_iff lower_char_not_upper)

lemma build_categories_slugs:
  assumes "build_categories data = Inr cs"
  shows "list_all (\<lambda>c. c_id c = spec_slug (name c)) cs"
proof -
  from assms obtain g where cs: "cs = map to_category (entries g)"
    by (auto simp: build_categories_def split: sum.splits)
  show ?thesis
    by (auto simp: cs list_all_iff to_category_def slug_def spec_slug_def
          replace_spaces_collapse)
qed

section \<open>The invariant of the flow controller\<close>

lemma strict_eq_Num: "strict_eq (Num a) c \<longleftrightarrow> c = Num a"
  by (cases c) auto

lemma correct_count_Nil: "correct_count [] qs = 0"
  by (simp add: correct_count_def)

lemma correct_count_snoc:
  "correct_count (as @ [a]) qs =
     correct_count as qs + (if strict_eq (Num a) (correct (qs ! length as)) then 1 else 0)"
proof -
  have "filter (\<lambda>i. strict_eq (Num ((as @ [a]) ! i)) (correct (qs ! i))) [0..<length as]
        = filter (\<lambda>i. strict_eq (Num (as ! i)) (correct (qs ! i))) [0..<length as]"
    by (rule filter_cong) (auto simp: nth_append)
  then show ?thesis
    by (simp add: correct_count_def)
qed

lemma correct_count_le: "correct_count as qs \<le> length as"
  unfolding correct_count_def
  using length_filter_le [of _ "[0..<length as]"] by simp

lemma session_inv_init: "session_inv initial_state"
  by (simp add: session_inv_def initial_state_def)

lemma session_inv_handleStart: "session_inv s \<Longrightarrow> session_inv (handleStart s)"
  by (auto simp: session_inv_def handleStart_def split: option.splits)

lemma session_inv_handleCategorySelect:
  "session_inv s \<Longrightarrow> cat \<in> set (testCategories s) \<Longrightarrow> session_inv (handleCategorySelect cat s)"
  by (auto simp: session_inv_def handleCategorySelect_def correct_count_Nil)

lemma session_inv_resetTest: "session_inv s \<Longrightarrow> session_inv (resetTest s)"
  by (simp add: session_inv_def resetTest_def)

lemma session_inv_voice: "session_inv s \<Longrightarrow> session_inv (s\<lparr>voiceOn := b\<rparr>)"
  by (auto simp: session_inv_def split: option.splits)

lemma session_inv_handleAnswer:
  assumes "session_inv s" and "currentState s = Testing" and "handleAnswer a s = Inr s'"
  shows "session_inv s'"
proof (cases "showExplanation s")
  case True
  with assms show ?thesis by (simp add: handleAnswer_def)
next
  case False
  with assms(3) obtain cat where cat: "selectedCategory s = Some cat"
    and s': "s' = s\<lparr>userAnswers := userAnswers s @ [a],
                    score := (if strict_eq (Num a) (correct (questions cat ! currentQuestionIndex s))
                              then score s + 1 else score s),
                    showExplanation := True\<rparr>"
    by (auto simp: handleAnswer_def Let_def split: option.splits if_splits)
  from assms(1) cat False have len: "length (userAnswers s) = currentQuestionIndex s"
    and sc: "score s = correct_count (userAnswers s) (questions cat)"
    and idx: "currentQuestionIndex s < length (questions cat)"
    and cats: "\<forall>c \<in> set (testCategories s). questions c \<noteq> []"
    by (simp_all add: session_inv_def)
  show ?thesis
    unfolding session_inv_def s'
    using cat len sc idx cats by (simp add: correct_count_snoc)
qed

lemma session_inv_handleNext:
  assumes "session_inv s" and "showExplanation s" and "handleNext s = Inr s'"
    and "currentState s = Testing"
  shows "session_inv s'"
proof -
  from assms(3) obtain cat where cat: "selectedCategory s = Some cat"
    by (auto simp: handleNext_def split: option.splits)
  from assms(1,2) cat have len: "length (userAnswers s) = currentQuestionIndex s + 1"
    and sc: "score s = correct_count (userAnswers s) (questions cat)"
    and idx: "currentQuestionIndex s < length (questions cat)"
    and cats: "\<forall>c \<in> set (testCategories s). questions c \<noteq> []"
    by (simp_all add: session_inv_def)
  show ?thesis
  proof (cases "int (currentQuestionIndex s) < int (length (questions cat)) - 1")
    case True
    with assms(3) cat have "s' = s\<lparr>currentQuestionIndex := currentQuestionIndex s + 1,
                                   showExplanation := False\<rparr>"
      by (simp add: handleNext_def)
    with True cat len sc cats assms(4) show ?thesis
      by (simp add: session_inv_def)
  next
    case False
    with assms(3) cat have "s' = s\<lparr>currentState := Results\<rparr>"
      by (simp add: handleNext_def)
    with assms(2) cat len sc idx cats show ?thesis
      by (simp add: session_inv_def)
  qed
qed

lemma session_inv_loaded:
  assumes "session_inv s" and "build_categories data = Inr cs"
  shows "session_inv (s\<lparr>testCategories := cs\<rparr>)"
  using assms build_categories_nonempty [OF assms(2)]
  by (auto simp: session_inv_def split: option.splits)

lemma testing_questionD:
  "testing_question s = Some q \<Longrightarrow>
     currentState s = Testing \<and>
     (\<exists>cat. selectedCategory s = Some cat \<and> currentQuestionIndex s < length (questions cat)
            \<and> q = questions cat ! currentQuestionIndex s)"
  by (auto simp: testing_question_def split: if_splits option.splits)

lemma session_inv_fire:
  assumes "session_inv s" and "fire e s = Some (Inr s')"
  shows "session_inv s'"
proof (cases e)
  case ClickBegin
  with assms show ?thesis by (auto simp: session_inv_handleStart split: if_splits)
next
  case (ClickCategory k)
  with assms show ?thesis
    by (auto simp: session_inv_handleCategorySelect split: if_splits)
next
  case ClickVoice
  with assms show ?thesis
    by (auto simp: session_inv_voice split: option.splits)
next
  case (ClickOption i)
  with assms(2) obtain q where "testing_question s = Some q"
    and "handleAnswer (int i) s = Inr s'"
    by (auto split: option.splits if_splits)
  with assms(1) show ?thesis
    using session_inv_handleAnswer testing_questionD by blast
next
  case ClickNext
  with assms(2) obtain q where "testing_question s = Some q"
    and "showExplanation s" and "handleNext s = Inr s'"
    by (auto split: option.splits if_splits)
  with assms(1) show ?thesis
    using session_inv_handleNext testing_questionD by blast
next
  case ClickNewAssessment
  with assms show ?thesis by (auto simp: session_inv_resetTest split: if_splits)
next
  case (QuestionsLoaded data)
  with assms show ?thesis
    by (auto simp: session_inv_loaded split: sum.splits)
qed

lemma reachable_session_inv: "reachable s \<Longrightarrow> session_inv s"
  by (induction rule: reachable.induct) (auto intro: session_inv_init session_inv_fire)

text \<open>
  Every vector of answers can be played: from a reachable testing state that shows an
  unanswered question, answering the remaining questions with indices of their options
  leads to the results, with those answers recorded.
\<close>

lemma complete_session:
  assumes "reachable s" and "currentState s = Testing" and "selectedCategory s = Some cat"
    and "\<not> showExplanation s"
    and "length as = length (questions cat) - currentQuestionIndex s"
    and "\<forall>j < length as. 0 \<le> as ! j
           \<and> as ! j < int (length (q_options (questions cat ! (currentQuestionIndex s + j))))"
  shows "\<exists>s'. reachable s' \<and> currentState s' = Results \<and> selectedCategory s' = Some cat
              \<and> userAnswers s' = userAnswers s @ as
              \<and> voiceOn s' = voiceOn s \<and> testCategories s' = testCategories s"
  using assms
proof (induction as arbitrary: s)
  case Nil
  from reachable_session_inv [OF Nil.prems(1)] Nil.prems(3)
  have "currentQuestionIndex s < length (questions cat)"
    by (simp add: session_inv_def)
  with Nil.prems(5) show ?case by simp
next
  case (Cons a rest)
  from reachable_session_inv [OF Cons.prems(1)] Cons.prems(3)
  have idx: "currentQuestionIndex s < length (questions cat)"
    by (simp add: session_inv_def)
  from Cons.prems(6) have a: "0 \<le> a"
    "a < int (length (q_options (questions cat ! currentQuestionIndex s)))"
    by auto
  define s1 where "s1 = s\<lparr>userAnswers := userAnswers s @ [a],
      score := (if strict_eq (Num a) (correct (questions cat ! currentQuestionIndex s))
                then score s + 1 else score s),
      showExplanation := True\<rparr>"
  have tq: "testing_question s = Some (questions cat ! currentQuestionIndex s)"
    using Cons.prems(2,3) idx by (simp add: testing_question_def)
  have "handleAnswer a s = Inr s1"
    using Cons.prems(3,4) idx by (simp add: handleAnswer_def s1_def)
  then have "fire (ClickOption (nat a)) s = Some (Inr s1)"
    using tq a Cons.prems(4) by simp
  with Cons.prems(1) have r1: "reachable s1"
    by (rule reachable_fire)
  have tq1: "testing_question s1 = Some (questions cat ! currentQuestionIndex s)"
    using Cons.prems(2,3) idx by (simp add: testing_question_def s1_def)
  have next1: "fire ClickNext s1 = Some (handleNext s1)"
    using tq1 by (simp add: s1_def)
  show ?case
  proof (cases rest)
    case Nil
    with Cons.prems(5) idx
    have "\<not> int (currentQuestionIndex s) < int (length (questions cat)) - 1"
      by simp
    then have "handleNext s1 = Inr (s1\<lparr>currentState := Results\<rparr>)"
      using Cons.prems(3) by (simp add: handleNext_def s1_def)
    with next1 have "fire ClickNext s1 = Some (Inr (s1\<lparr>currentState := Results\<rparr>))"
      by (simp only:)
    with r1 have "reachable (s1\<lparr>currentState := Results\<rparr>)"
      by (rule reachable_fire)
    with Nil Cons.prems(3) show ?thesis
      by (intro exI [of _ "s1\<lparr>currentState := Results\<rparr>"]) (simp add: s1_def)
  next
    case (Cons b rest')
    define s2 where "s2 = s1\<lparr>currentQuestionIndex := currentQuestionIndex s + 1,
                              showExplanation := False\<rparr>"
    from Cons Cons.prems(5) idx
    have "int (currentQuestionIndex s) < int (length (questions cat)) - 1"
      by simp
    then have "handleNext s1 = Inr s2"
      using Cons.prems(3) by (simp add: handleNext_def s1_def s2_def)
    with next1 have "fire ClickNext s1 = Some (Inr s2)"
      by (simp only:)
    with r1 have r2: "reachable s2"
      by (rule reachable_fire)
    have len: "length rest = length (questions cat) - currentQuestionIndex s2"
      using Cons.prems(5) by (simp add: s2_def s1_def)
    have rng: "\<forall>j < length rest. 0 \<le> rest ! j
           \<and> rest ! j < int (length (q_options (questions cat ! (currentQuestionIndex s2 + j))))"
    proof (intro allI impI)
      fix j assume "j < length rest"
      with Cons.prems(6) [rule_format, of "Suc j"] show "0 \<le> rest ! j
           \<and> rest ! j < int (length (q_options (questions cat ! (currentQuestionIndex s2 + j))))"
        by (simp add: s2_def s1_def)
    qed
    have "\<exists>s'. reachable s' \<and> currentState s' = Results \<and> selectedCategory s' = Some cat
              \<and> userAnswers s' = userAnswers s2 @ rest
              \<and> voiceOn s' = voiceOn s2 \<and> testCategories s' = testCategories s2"
      using r2 _ _ _ len rng
      by (rule Cons.IH) (simp_all add: s2_def s1_def Cons.prems(2,3))
    then show ?thesis
      by (simp add: s2_def s1_def)
  qed
qed

section \<open>The sample session\<close>

lemma build_sample: "build_categories sample_data = Inr [sample_logical, sample_verbal]"
  by code_simp

lemma run_reachable: "reachable s \<Longrightarrow> run es s = Some s' \<Longrightarrow> reachable s'"
proof (induction es arbitrary: s)
  case Nil
  then show ?case by simp
next
  case (Cons e es)
  then show ?case
    by (auto split: option.splits sum.splits intro: reachable_fire)
qed

lemma run_sample3: "run (take 3 sample_events) initial_state = Some sample_first_shown"
  by code_simp

lemma run_sample4: "run (take 4 sample_events) initial_state = Some sample_first_answered"
  by code_simp

lemma run_sample5: "run (take 5 sample_events) initial_state = Some sample_second_shown"
  by code_simp

lemma run_sample6: "run (take 6 sample_events) initial_state = Some sample_second_answered"
  by code_simp

lemma run_sample7: "run sample_events initial_state = Some sample_results"
  by code_simp

lemma reachable_sample_first_shown: "reachable sample_first_shown"
  using run_reachable [OF reachable_init run_sample3] .

lemma reachable_sample_first_answered: "reachable sample_first_answered"
  using run_reachable [OF reachable_init run_sample4] .

lemma reachable_sample_second_shown: "reachable sample_second_shown"
  using run_reachable [OF reachable_init run_sample5] .

lemma reachable_sample_second_answered: "reachable sample_second_answered"
  using run_reachable [OF reachable_init run_sample6] .

lemma reachable_sample_results: "reachable sample_results"
  using run_reachable [OF reachable_init run_sample7] .

lemma build_long: "build_categories long_data = Inr [long_category]"
  by code_simp

lemma run_long_start:
  "run [QuestionsLoaded long_data, ClickBegin, ClickCategory 0] initial_state = Some long_start"
  by code_simp

lemma long_count: "correct_count long_answers (questions long_category) = 35"
  by code_simp

lemma reachable_long_start: "reachable long_start"
  using run_reachable [OF reachable_init run_long_start] .

lemma long_answers_in_range:
  "\<forall>j < length long_answers. 0 \<le> long_answers ! j
     \<and> long_answers ! j
         < int (length (q_options (questions long_category ! (currentQuestionIndex long_start + j))))"
proof (intro allI impI)
  fix j assume "j < length long_answers"
  then have j: "j < 44" by (simp add: long_answers_def)
  then have "long_answers ! j = 0 \<or> long_answers ! j = 1"
    by (auto simp: long_answers_def nth_append)
  moreover from j have "q_options (questions long_category ! j) = [''Yes'', ''No'']"
    by (simp add: long_category_def formatted_def long_record_def del: upt_Suc)
  ultimately show "0 \<le> long_answers ! j
     \<and> long_answers ! j
         < int (length (q_options (questions long_category ! (currentQuestionIndex long_start + j))))"
    by (auto simp: long_start_def)
qed

lemma reachable_long_results: "reachable long_results"
proof -
  have "\<exists>s'. reachable s' \<and> currentState s' = Results
              \<and> selectedCategory s' = Some long_category
              \<and> userAnswers s' = userAnswers long_start @ long_answers
              \<and> voiceOn s' = voiceOn long_start
              \<and> testCategories s' = testCategories long_start"
    using reachable_long_start _ _ _ _ long_answers_in_range
    by (rule complete_session)
       (simp_all add: long_start_def long_answers_def long_category_def del: upt_Suc)
  then obtain s' where r: "reachable s'" and st: "currentState s' = Results"
    and sel: "selectedCategory s' = Some long_category"
    and ans: "userAnswers s' = long_answers"
    and rest: "voiceOn s' = True" "testCategories s' = [long_category]"
    by (auto simp: long_start_def)
  from reachable_session_inv [OF r] sel st
  have shown: "showExplanation s'"
    and len: "length (userAnswers s') = currentQuestionIndex s' + 1"
    and sc: "score s' = correct_count (userAnswers s') (questions long_category)"
    by (simp_all add: session_inv_def)
  from len ans have "currentQuestionIndex s' = 43"
    by (simp add: long_answers_def)
  moreover from sc ans have "score s' = 35"
    by (simp add: long_count)
  ultimately have "s' = long_results"
    using st sel ans rest shown by (simp add: long_results_def state.equality)
  with r show ?thesis by simp
qed

section \<open>Properties of the scoring\<close>

lemma js_ge_percentage:
  assumes "0 < n"
  shows "js_ge (js_times (js_div sc n) 100) (of_nat t) \<longleftrightarrow> t * n \<le> 100 * sc"
proof -
  have "(of_nat t :: rat) \<le> of_nat sc / of_nat n * 100
        \<longleftrightarrow> (of_nat t :: rat) * of_nat n \<le> of_nat sc * 100"
    using assms by (simp add: pos_le_divide_eq)
  also have "\<dots> \<longleftrightarrow> (of_nat (t * n) :: rat) \<le> of_nat (100 * sc)"
    by (simp add: mult.commute)
  also have "\<dots> \<longleftrightarrow> t * n \<le> 100 * sc"
    by (simp only: of_nat_le_iff)
  finally show ?thesis
    using assms by (simp add: js_div_def)
qed

section \<open>The claims\<close>

text \<open>
  C9: the slug of a category is a function of its name alone: the name in lower case
  with every run of whitespace collapsed into a single hyphen. It holds no whitespace and
  no capital letter. The mapping of the loader gives the category of a bucket the key of
  the bucket as its name and the slug of that key as its \<^verbatim>\<open>id\<close>; so in every catalogue
  that the loader builds, the names are the categories of the records and each \<^verbatim>\<open>id\<close>
  is the slug of the name. The slug of \<^verbatim>\<open>Computer Knowledge\<close> is
  \<^verbatim>\<open>computer-knowledge\<close>.
\<close>

theorem slug_collapses_whitespace:
  "slug nm = spec_slug nm
   \<and> \<not> list_ex is_space (slug nm)
   \<and> \<not> list_ex is_upper (slug nm)
   \<and> c_id (to_category (nm, qs)) = spec_slug nm
   \<and> name (to_category (nm, qs)) = nm
   \<and> c_id (to_category (nm, qs)) = slug (name (to_category (nm, qs)))
   \<and> (build_categories data = Inr cs \<longrightarrow>
         list_all (\<lambda>c. c_id c = spec_slug (name c)) cs
         \<and> set (map name cs) = set (map category data))
   \<and> slug ''Computer Knowledge'' = ''computer-knowledge''
   \<and> c_id (to_category (''Computer Knowledge'', qs)) = ''computer-knowledge''"
proof -
  have eq: "slug nm = spec_slug nm" for nm
    by (simp add: slug_def spec_slug_def replace_spaces_collapse)
  have "\<not> list_ex is_space (slug nm)"
    unfolding slug_def by (rule replace_spaces_no_space)
  moreover have "\<not> list_ex is_upper (slug nm)"
    unfolding slug_def by (rule replace_spaces_no_upper) (rule toLowerCase_no_upper)
  moreover have "c_id (to_category (nm, qs)) = spec_slug nm"
    and "name (to_category (nm, qs)) = nm"
    and "c_id (to_category (nm, qs)) = slug (name (to_category (nm, qs)))"
    by (simp_all add: to_category_def eq)
  moreover have "build_categories data = Inr cs \<longrightarrow>
         list_all (\<lambda>c. c_id c = spec_slug (name c)) cs
         \<and> set (map name cs) = set (map category data)"
    using build_categories_slugs build_categories_names by blast
  moreover have ex: "slug ''Computer Knowledge'' = ''computer-knowledge''"
    by code_simp
  moreover have "c_id (to_category (''Computer Knowledge'', qs)) = ''computer-knowledge''"
    using ex by (simp add: to_category_def)
  ultimately show ?thesis using eq [of nm] by blast
qed

theorem slug_collapses_whitespace_witness:
  "build_categories sample_data = Inr [sample_logical, sample_verbal]
   \<and> name sample_logical = ''Logical Reasoning''
   \<and> c_id sample_logical = spec_slug ''Logical Reasoning''
   \<and> c_id sample_logical = ''logical-reasoning''
   \<and> name sample_verbal = ''Verbal Ability''
   \<and> c_id sample_verbal = spec_slug ''Verbal Ability''
   \<and> c_id sample_verbal = ''verbal-ability''
   \<and> set (map category sample_data) = {''Logical Reasoning'', ''Verbal Ability''}"
proof -
  have names: "name sample_logical = ''Logical Reasoning''"
    "name sample_verbal = ''Verbal Ability''"
    and ids: "c_id sample_logical = ''logical-reasoning''"
    "c_id sample_verbal = ''verbal-ability''"
    by (simp_all add: sample_logical_def sample_verbal_def)
  from slug_collapses_whitespace
         [of "''Logical Reasoning''" "[]" sample_data "[sample_logical, sample_verbal]"]
    build_sample names ids
  show ?thesis by auto
qed

text \<open>
  C7: \<^verbatim>\<open>handleCategorySelect\<close> creates a fresh session. Whatever the state before,
  afterwards the flow state is \<^verbatim>\<open>testing\<close> on the chosen category with index 0, no
  answers, score 0 and no explanation showing; the result does not depend on the state,
  category, index, answers, explanation flag or score of an earlier session.
\<close>

theorem handleCategorySelect_fresh_session:
  "currentState (handleCategorySelect cat s) = Testing
   \<and> selectedCategory (handleCategorySelect cat s) = Some cat
   \<and> currentQuestionIndex (handleCategorySelect cat s) = 0
   \<and> userAnswers (handleCategorySelect cat s) = []
   \<and> score (handleCategorySelect cat s) = 0
   \<and> showExplanation (handleCategorySelect cat s) = False
   \<and> handleCategorySelect cat s
       = handleCategorySelect cat
           (s\<lparr>currentState := st, selectedCategory := sel, currentQuestionIndex := i,
              userAnswers := as, showExplanation := shown, score := sc\<rparr>)"
  by (simp add: handleCategorySelect_def)

text \<open>
  C4: \<^verbatim>\<open>handleAnswer\<close> is idempotent per question. While the explanation shows (the
  current question is answered), a further call with any index returns the state as it
  is, so answers and score stay as the first call left them, and the option buttons,
  being disabled, fire nothing; and after any call that returned, a second call changes
  nothing.
\<close>

theorem handleAnswer_idempotent:
  "(showExplanation s \<longrightarrow> handleAnswer j s = Inr s \<and> fire (ClickOption k) s = None)
   \<and> (handleAnswer i s0 = Inr s1 \<longrightarrow> handleAnswer j s1 = Inr s1)"
  by (auto simp: handleAnswer_def Let_def split: option.splits if_splits)

theorem handleAnswer_idempotent_witness:
  "showExplanation sample_first_answered
   \<and> handleAnswer 1 sample_first_shown = Inr sample_first_answered
   \<and> handleAnswer 3 sample_first_answered = Inr sample_first_answered
   \<and> userAnswers sample_first_answered = [1] \<and> score sample_first_answered = 1
   \<and> fire (ClickOption 3) sample_first_answered = None"
proof -
  have shown: "showExplanation sample_first_answered"
    by (simp add: sample_first_answered_def sample_session_def)
  have first: "handleAnswer 1 sample_first_shown = Inr sample_first_answered"
    by (simp add: handleAnswer_def sample_first_shown_def sample_first_answered_def
          sample_session_def sample_logical_def)
  have vals: "userAnswers sample_first_answered = [1] \<and> score sample_first_answered = 1"
    by (simp add: sample_first_answered_def sample_session_def)
  from handleAnswer_idempotent
         [of sample_first_answered 3 3 1 sample_first_shown sample_first_answered]
    shown first vals
  show ?thesis by simp
qed

text \<open>
  C10: a question whose correct index lies outside its options can never be scored. For
  a submitted index within the options, \<^verbatim>\<open>handleAnswer\<close> records the answer and shows
  the explanation, and leaves the score as it is.
\<close>

theorem malformed_question_never_scores:
  assumes "selectedCategory s = Some cat"
    and "currentQuestionIndex s < length (questions cat)"
    and "\<not> showExplanation s"
    and "\<not> correct_in_range (questions cat ! currentQuestionIndex s)"
    and "0 \<le> a"
    and "a < int (length (q_options (questions cat ! currentQuestionIndex s)))"
  shows "handleAnswer a s
         = Inr (s\<lparr>userAnswers := userAnswers s @ [a], showExplanation := True\<rparr>)"
proof -
  from assms(4-6) have "\<not> strict_eq (Num a) (correct (questions cat ! currentQuestionIndex s))"
    by (auto simp: correct_in_range_def strict_eq_Num split: jsnum.splits)
  with assms(1-3) show ?thesis
    by (simp add: handleAnswer_def)
qed

theorem malformed_question_never_scores_witness:
  "selectedCategory sample_second_shown = Some sample_logical
   \<and> currentQuestionIndex sample_second_shown < length (questions sample_logical)
   \<and> \<not> showExplanation sample_second_shown
   \<and> \<not> correct_in_range (questions sample_logical ! currentQuestionIndex sample_second_shown)
   \<and> handleAnswer 0 sample_second_shown = Inr sample_second_answered
   \<and> score sample_second_answered = score sample_second_shown"
proof -
  have sel: "selectedCategory sample_second_shown = Some sample_logical"
    by (simp add: sample_second_shown_def sample_session_def)
  have idx: "currentQuestionIndex sample_second_shown < length (questions sample_logical)"
    by (simp add: sample_second_shown_def sample_session_def sample_logical_def)
  have shown: "\<not> showExplanation sample_second_shown"
    by (simp add: sample_second_shown_def sample_session_def)
  have bad: "\<not> correct_in_range
               (questions sample_logical ! currentQuestionIndex sample_second_shown)"
    by (simp add: sample_second_shown_def sample_session_def sample_logical_def
          correct_in_range_def)
  have opt: "(0::int) < int (length (q_options
               (questions sample_logical ! currentQuestionIndex sample_second_shown)))"
    by (simp add: sample_second_shown_def sample_session_def sample_logical_def)
  have upd: "sample_second_shown
               \<lparr>userAnswers := userAnswers sample_second_shown @ [0], showExplanation := True\<rparr>
             = sample_second_answered"
    by (simp add: sample_second_shown_def sample_second_answered_def sample_session_def)
  have sc: "score sample_second_answered = score sample_second_shown"
    by (simp add: sample_second_shown_def sample_second_answered_def sample_session_def)
  from malformed_question_never_scores [OF sel idx shown bad order_refl opt]
    sel idx shown bad upd sc
  show ?thesis by simp
qed

text \<open>
  C2, as stated: calling \<^verbatim>\<open>handleNext\<close> in a testing state whose current question is
  not answered changes nothing. It fails: in the reachable state that shows the first of
  two questions, \<^verbatim>\<open>handleNext\<close> moves the index from 0 to 1.
\<close>

theorem handleNext_unguarded_counterexample:
  "reachable sample_first_shown
   \<and> currentState sample_first_shown = Testing
   \<and> showExplanation sample_first_shown = False
   \<and> handleNext sample_first_shown = Inr (sample_session 1 [] False 0)
   \<and> currentQuestionIndex (sample_session 1 [] False 0)
       \<noteq> currentQuestionIndex sample_first_shown"
  using reachable_sample_first_shown
  by (simp add: handleNext_def sample_first_shown_def sample_session_def sample_logical_def)

text \<open>
  C2, amended: \<^verbatim>\<open>handleNext\<close> has no guard of its own. In a testing state with a
  selected category whose current question is not answered, it does not throw and leaves
  answers and score as they are, but it does advance, to the next index or, from the last
  index on, to the results. What keeps it from being called is the screen: the button
  that calls it is rendered only while the explanation shows, so no control fires it.
\<close>

theorem handleNext_before_answer:
  assumes "currentState s = Testing"
    and "selectedCategory s = Some cat"
    and "\<not> showExplanation s"
  shows "fire ClickNext s = None
         \<and> (\<exists>s'. handleNext s = Inr s' \<and> s' \<noteq> s
                \<and> userAnswers s' = userAnswers s \<and> score s' = score s
                \<and> s' = (if int (currentQuestionIndex s) < int (length (questions cat)) - 1
                        then s\<lparr>currentQuestionIndex := currentQuestionIndex s + 1\<rparr>
                        else s\<lparr>currentState := Results\<rparr>))"
proof -
  have "fire ClickNext s = None"
    using assms(3) by (simp split: option.splits)
  moreover have "s\<lparr>currentQuestionIndex := currentQuestionIndex s + 1\<rparr> \<noteq> s"
  proof
    assume "s\<lparr>currentQuestionIndex := currentQuestionIndex s + 1\<rparr> = s"
    from arg_cong [OF this, of currentQuestionIndex] show False by simp
  qed
  moreover have "s\<lparr>currentState := Results\<rparr> \<noteq> s"
  proof
    assume "s\<lparr>currentState := Results\<rparr> = s"
    from arg_cong [OF this, of currentState] assms(1) show False by simp
  qed
  moreover have "s\<lparr>currentQuestionIndex := currentQuestionIndex s + 1, showExplanation := False\<rparr>
                 = s\<lparr>currentQuestionIndex := currentQuestionIndex s + 1\<rparr>"
    using assms(3) by simp
  ultimately show ?thesis
    using assms(2) by (simp add: handleNext_def)
qed

theorem handleNext_before_answer_witness:
  "currentState sample_first_shown = Testing
   \<and> selectedCategory sample_first_shown = Some sample_logical
   \<and> showExplanation sample_first_shown = False
   \<and> fire ClickNext sample_first_shown = None
   \<and> handleNext sample_first_shown = Inr (sample_session 1 [] False 0)
   \<and> sample_session 1 [] False 0 \<noteq> sample_first_shown"
proof -
  have st: "currentState sample_first_shown = Testing"
    by (simp add: sample_first_shown_def sample_session_def)
  have sel: "selectedCategory sample_first_shown = Some sample_logical"
    by (simp add: sample_first_shown_def sample_session_def)
  have shown: "\<not> showExplanation sample_first_shown"
    by (simp add: sample_first_shown_def sample_session_def)
  have nxt: "(if int (currentQuestionIndex sample_first_shown)
                   < int (length (questions sample_logical)) - 1
              then sample_first_shown
                     \<lparr>currentQuestionIndex := currentQuestionIndex sample_first_shown + 1\<rparr>
              else sample_first_shown\<lparr>currentState := Results\<rparr>)
             = sample_session 1 [] False 0"
    by (simp add: sample_first_shown_def sample_session_def sample_logical_def)
  from handleNext_before_answer [OF st sel shown] st sel shown
  show ?thesis unfolding nxt by auto
qed

text \<open>
  C6: in every reachable state with a selected category the index is within the
  questions of the category. In such a testing state with the current question answered,
  the button of \<^verbatim>\<open>handleNext\<close> is there, and \<^verbatim>\<open>handleNext\<close> switches to the results if
  the index is the last one, and otherwise adds one to the index and clears the
  explanation flag.
\<close>

theorem handleNext_advances:
  assumes "reachable s" and "selectedCategory s = Some cat"
  shows "currentQuestionIndex s < length (questions cat)
         \<and> (currentState s = Testing \<and> showExplanation s \<longrightarrow>
              fire ClickNext s = Some (handleNext s)
              \<and> handleNext s
                  = Inr (if currentQuestionIndex s = length (questions cat) - 1
                         then s\<lparr>currentState := Results\<rparr>
                         else s\<lparr>currentQuestionIndex := currentQuestionIndex s + 1,
                                showExplanation := False\<rparr>))"
proof -
  from reachable_session_inv [OF assms(1)] assms(2)
  have idx: "currentQuestionIndex s < length (questions cat)"
    by (simp add: session_inv_def)
  then have "int (currentQuestionIndex s) < int (length (questions cat)) - 1
             \<longleftrightarrow> currentQuestionIndex s \<noteq> length (questions cat) - 1"
    by auto
  with idx assms(2) show ?thesis
    by (simp add: handleNext_def testing_question_def)
qed

theorem handleNext_advances_witness:
  "reachable sample_first_answered
   \<and> selectedCategory sample_first_answered = Some sample_logical
   \<and> currentQuestionIndex sample_first_answered < length (questions sample_logical)
   \<and> currentState sample_first_answered = Testing
   \<and> showExplanation sample_first_answered
   \<and> currentQuestionIndex sample_first_answered \<noteq> length (questions sample_logical) - 1
   \<and> handleNext sample_first_answered = Inr sample_second_shown
   \<and> reachable sample_second_answered
   \<and> selectedCategory sample_second_answered = Some sample_logical
   \<and> currentState sample_second_answered = Testing
   \<and> showExplanation sample_second_answered
   \<and> currentQuestionIndex sample_second_answered = length (questions sample_logical) - 1
   \<and> handleNext sample_second_answered = Inr sample_results"
proof -
  have sel1: "selectedCategory sample_first_answered = Some sample_logical"
    and sel2: "selectedCategory sample_second_answered = Some sample_logical"
    by (simp_all add: sample_first_answered_def sample_second_answered_def sample_session_def)
  have st1: "currentState sample_first_answered = Testing \<and> showExplanation sample_first_answered"
    and st2: "currentState sample_second_answered = Testing
              \<and> showExplanation sample_second_answered"
    by (simp_all add: sample_first_answered_def sample_second_answered_def sample_session_def)
  have i1: "currentQuestionIndex sample_first_answered \<noteq> length (questions sample_logical) - 1"
    and i2: "currentQuestionIndex sample_second_answered = length (questions sample_logical) - 1"
    by (simp_all add: sample_first_answered_def sample_second_answered_def sample_session_def
          sample_logical_def)
  have n1: "sample_first_answered
              \<lparr>currentQuestionIndex := currentQuestionIndex sample_first_answered + 1,
               showExplanation := False\<rparr> = sample_second_shown"
    by (simp add: sample_first_answered_def sample_second_shown_def sample_session_def)
  have n2: "sample_second_answered\<lparr>currentState := Results\<rparr> = sample_results"
    by (simp add: sample_second_answered_def sample_results_def)
  from handleNext_advances [OF reachable_sample_first_answered sel1]
    handleNext_advances [OF reachable_sample_second_answered sel2]
    reachable_sample_first_answered reachable_sample_second_answered
    sel1 sel2 st1 st2 i1 i2 n1 n2
  show ?thesis by simp
qed

text \<open>
  C5: in every reachable state the score is at most the number of answers; with a
  selected category the number of answers is at most the number of its questions, and
  the score is the number of positions at which the answer is the correct index of the
  question. A call of
  \<^verbatim>\<open>handleAnswer\<close> for an unanswered question appends exactly the submitted index to the
  answers, and adds one to the score if and only if that index is the correct index of
  the current question.
\<close>

theorem score_counts_correct_answers:
  assumes "reachable s"
  shows "score s \<le> length (userAnswers s)
         \<and> (selectedCategory s = Some cat \<longrightarrow>
              length (userAnswers s) \<le> length (questions cat)
              \<and> score s = correct_count (userAnswers s) (questions cat)
              \<and> (\<not> showExplanation s \<longrightarrow>
                   handleAnswer a s
                   = Inr (s\<lparr>userAnswers := userAnswers s @ [a],
                            score := (if correct (questions cat ! currentQuestionIndex s) = Num a
                                      then score s + 1 else score s),
                            showExplanation := True\<rparr>)))"
proof (cases "selectedCategory s")
  case None
  with reachable_session_inv [OF assms] show ?thesis
    by (simp add: session_inv_def)
next
  case (Some c)
  with reachable_session_inv [OF assms]
  have idx: "currentQuestionIndex s < length (questions c)"
    and len: "length (userAnswers s)
              = currentQuestionIndex s + (if showExplanation s then 1 else 0)"
    and sc: "score s = correct_count (userAnswers s) (questions c)"
    by (simp_all add: session_inv_def)
  have "score s \<le> length (userAnswers s)"
    unfolding sc by (rule correct_count_le)
  moreover have "length (userAnswers s) \<le> length (questions c)"
    using idx len by (simp split: if_splits)
  moreover have "\<not> showExplanation s \<longrightarrow>
              handleAnswer a s
              = Inr (s\<lparr>userAnswers := userAnswers s @ [a],
                       score := (if correct (questions c ! currentQuestionIndex s) = Num a
                                 then score s + 1 else score s),
                       showExplanation := True\<rparr>)"
    using idx Some by (simp add: handleAnswer_def strict_eq_Num)
  ultimately show ?thesis using sc Some by auto
qed

theorem score_counts_correct_answers_witness:
  "reachable sample_first_shown
   \<and> selectedCategory sample_first_shown = Some sample_logical
   \<and> showExplanation sample_first_shown = False
   \<and> handleAnswer 1 sample_first_shown = Inr sample_first_answered
   \<and> score sample_first_answered = score sample_first_shown + 1
   \<and> reachable sample_second_answered
   \<and> selectedCategory sample_second_answered = Some sample_logical
   \<and> userAnswers sample_second_answered = [1, 0]
   \<and> score sample_second_answered = 1
   \<and> length (questions sample_logical) = 2
   \<and> correct_count [1, 0] (questions sample_logical) = 1"
proof -
  have sel: "selectedCategory sample_first_shown = Some sample_logical"
    and shown: "\<not> showExplanation sample_first_shown"
    and sel2: "selectedCategory sample_second_answered = Some sample_logical"
    and vals: "userAnswers sample_second_answered = [1, 0] \<and> score sample_second_answered = 1"
    by (simp_all add: sample_first_shown_def sample_second_answered_def sample_session_def)
  have upd: "sample_first_shown
               \<lparr>userAnswers := userAnswers sample_first_shown @ [1],
                score := (if correct (questions sample_logical
                                       ! currentQuestionIndex sample_first_shown) = Num 1
                          then score sample_first_shown + 1 else score sample_first_shown),
                showExplanation := True\<rparr> = sample_first_answered"
    by (simp add: sample_first_shown_def sample_first_answered_def sample_session_def
          sample_logical_def)
  have sc: "score sample_first_answered = score sample_first_shown + 1"
    by (simp add: sample_first_shown_def sample_first_answered_def sample_session_def)
  have len: "length (questions sample_logical) = 2"
    by (simp add: sample_logical_def)
  from score_counts_correct_answers [OF reachable_sample_first_shown, of sample_logical 1]
    score_counts_correct_answers [OF reachable_sample_second_answered, of sample_logical 0]
    reachable_sample_first_shown reachable_sample_second_answered sel shown sel2 vals upd sc len
  show ?thesis by simp
qed

text \<open>
  C3, as stated: every question that the loader builds has its correct index within its
  options. It fails: the third record of the sample names the answer \<^verbatim>\<open>Z\<close>, and the
  loader builds from it a question with correct index 25 and four options.
\<close>

theorem loader_unguarded_counterexample:
  "build_categories sample_data = Inr [sample_logical, sample_verbal]
   \<and> questions sample_logical ! 1 = formatted (sample_data ! 2) 2
   \<and> correct (questions sample_logical ! 1) = Num 25
   \<and> length (q_options (questions sample_logical ! 1)) = 4
   \<and> correct_in_range (questions sample_logical ! 1) = False"
  using build_sample
  by (simp add: sample_logical_def sample_data_def formatted_def correct_in_range_def)

text \<open>
  C3, amended: the loader has no guard on the answer letter. When it does not throw, the
  questions of the catalogue are exactly the records normalised at their positions: none
  is left out. The correct index of each is the code of the first character of the
  answer minus 65 (\<^verbatim>\<open>NaN\<close> for an empty answer), and it lies within the options if and
  only if the answer starts with one of the first \<open>length options\<close> capital letters.
\<close>

theorem loader_decodes_unguarded:
  assumes "build_categories data = Inr cs"
  shows "(q \<in> set (concat (map questions cs))
            \<longleftrightarrow> (\<exists>i < length data. q = formatted (data ! i) i))
         \<and> correct (formatted r i) = js_minus (charCodeAt0 (answer r)) (Num 65)
         \<and> (correct_in_range (formatted r i) \<longleftrightarrow> letter_in_range r)"
proof -
  have "set (concat (map questions cs)) = set (map2 formatted data [0..<length data])"
    using build_categories_mset [OF assms] by (rule mset_eq_setD)
  then have "q \<in> set (concat (map questions cs))
             \<longleftrightarrow> (\<exists>i < length data. q = formatted (data ! i) i)"
    by (simp only: set_map2_formatted)
  then show ?thesis
    using formatted_fields [of r i] formatted_in_range [of r i] by blast
qed

theorem loader_decodes_unguarded_witness:
  "build_categories sample_data = Inr [sample_logical, sample_verbal]
   \<and> formatted (sample_data ! 2) 2 \<in> set (concat (map questions [sample_logical, sample_verbal]))
   \<and> correct (formatted (sample_data ! 2) 2) = Num 25
   \<and> letter_in_range (sample_data ! 2) = False
   \<and> correct_in_range (formatted (sample_data ! 2) 2) = False
   \<and> letter_in_range (sample_data ! 0) = True
   \<and> correct_in_range (formatted (sample_data ! 0) 0) = True"
proof -
  have len: "(2::nat) < length sample_data"
    by (simp add: sample_data_def)
  have l2: "letter_in_range (sample_data ! 2) = False"
    and l0: "letter_in_range (sample_data ! 0) = True"
    and a2: "js_minus (charCodeAt0 (answer (sample_data ! 2))) (Num 65) = Num 25"
    by (simp_all add: sample_data_def letter_in_range_def)
  from loader_decodes_unguarded
         [OF build_sample, of "formatted (sample_data ! 2) 2" "sample_data ! 2" 2]
    loader_decodes_unguarded [OF build_sample, of undefined "sample_data ! 0" 0]
    build_sample len l2 l0 a2
  show ?thesis by auto
qed

text \<open>
  C8, at the input on which the code departs from it: one raw record of category
  \<^verbatim>\<open>constructor\<close>. \<^verbatim>\<open>grouped["constructor"]\<close> reads the inherited function, so no bucket
  is created and \<^verbatim>\<open>push\<close> throws; the \<^verbatim>\<open>catch\<close> handler logs the error and the
  catalogue stays empty: its categories hold no question for the one record.
\<close>

theorem loader_throws_on_inherited_key:
  "length inherited_key_data = 1
   \<and> build_categories inherited_key_data = Inl TypeError
   \<and> fire (QuestionsLoaded inherited_key_data) initial_state = Some (Inr initial_state)
   \<and> sum_list (map (\<lambda>c. length (questions c)) (testCategories initial_state)) = 0"
proof -
  have "build_categories inherited_key_data = Inl TypeError"
    by code_simp
  then show ?thesis
    by (simp add: inherited_key_data_def initial_state_def)
qed

text \<open>
  C1, as stated: the message of a completed session is chosen by the thresholds on the
  rounded accuracy. It fails: for the reachable results of a session with 35 correct
  answers to 44 questions the rounded accuracy of the specification is 80, for which it
  names \<^verbatim>\<open>Excellent performance.\<close>, and the message is \<^verbatim>\<open>Good performance.\<close>
\<close>

theorem message_rounded_counterexample:
  "reachable long_results
   \<and> currentState long_results = Results
   \<and> selectedCategory long_results = Some long_category
   \<and> score long_results = 35
   \<and> length (questions long_category) = 44
   \<and> spec_accuracyPercent 35 44 = 80
   \<and> spec_message 35 44 = ''Excellent performance.''
   \<and> getScoreMessage long_results = Inr ''Good performance.''"
proof -
  have acc: "spec_accuracyPercent 35 44 = 80"
    by (simp add: spec_accuracyPercent_def round_def floor_eq_iff)
  have "getScoreMessage long_results = Inr ''Good performance.''"
    by (simp add: getScoreMessage_def long_results_def long_category_def js_div_def)
  moreover have "spec_message 35 44 = ''Excellent performance.''"
    by (simp add: spec_message_def acc)
  ultimately show ?thesis
    using reachable_long_results acc
    by (simp add: long_results_def long_category_def)
qed

text \<open>
  C1, amended: with a selected category that has questions, and so for every completed
  session, \<^verbatim>\<open>getScoreMessage\<close> chooses the message by the thresholds 80, 60 and 40 on
  the percentage \<open>score / length * 100\<close> as it is, not rounded: the message is
  \<^verbatim>\<open>Excellent performance.\<close> if and only if \<open>80 * length \<le> 100 * score\<close>, and so on.
\<close>

theorem message_thresholds_unrounded:
  assumes "selectedCategory s = Some cat" and "questions cat \<noteq> []"
  shows "getScoreMessage s
         = Inr (if 80 * length (questions cat) \<le> 100 * score s then ''Excellent performance.''
                else if 60 * length (questions cat) \<le> 100 * score s then ''Good performance.''
                else if 40 * length (questions cat) \<le> 100 * score s
                     then ''Average performance.''
                else ''Needs improvement.'')"
proof -
  from assms(2) have n: "0 < length (questions cat)" by simp
  show ?thesis
    using assms(1) js_ge_percentage [OF n, of "score s" 80]
      js_ge_percentage [OF n, of "score s" 60] js_ge_percentage [OF n, of "score s" 40]
    by (simp add: getScoreMessage_def Let_def)
qed

theorem message_thresholds_unrounded_witness:
  "selectedCategory sample_results = Some sample_logical
   \<and> questions sample_logical \<noteq> []
   \<and> score sample_results = 1 \<and> length (questions sample_logical) = 2
   \<and> getScoreMessage sample_results = Inr ''Average performance.''
   \<and> selectedCategory long_results = Some long_category
   \<and> questions long_category \<noteq> []
   \<and> score long_results = 35 \<and> length (questions long_category) = 44
   \<and> getScoreMessage long_results = Inr ''Good performance.''"
proof -
  have sel: "selectedCategory sample_results = Some sample_logical"
    by (simp add: sample_results_def sample_session_def)
  have ne: "questions sample_logical \<noteq> []"
    by (simp add: sample_logical_def)
  have vals: "score sample_results = 1 \<and> length (questions sample_logical) = 2"
    by (simp add: sample_results_def sample_session_def sample_logical_def)
  have sel': "selectedCategory long_results = Some long_category"
    by (simp add: long_results_def)
  have ne': "questions long_category \<noteq> []"
    by (simp add: long_category_def)
  have vals': "score long_results = 35 \<and> length (questions long_category) = 44"
    by (simp add: long_results_def long_category_def)
  from message_thresholds_unrounded [OF sel ne] message_thresholds_unrounded [OF sel' ne']
    sel ne vals sel' ne' vals'
  show ?thesis by simp
qed

end
